theory Spec2Isabelle
  imports Main "HOL-Library.Char_ord" "HOL-Library.List_Lexorder"
begin

section \<open>Python values and exceptions\<close>

text \<open>
  The script \<^verbatim>\<open>aws_snapshot_manager.py\<close> takes a daily snapshot and prunes the
  inventory of earlier ones. Exceptions that can leave a function are values of
  \<open>pyerror\<close>; what \<^verbatim>\<open>manage_snapshot_inventory\<close> hands back (\<^verbatim>\<open>None\<close> from
  \<^verbatim>\<open>delete_snapshots\<close>, which has no \<^verbatim>\<open>return\<close>, or an integer) is a \<open>pyresult\<close>.
\<close>

datatype pyerror = ValueError | OverflowError

datatype pyresult = PyNone | PyInt int

section \<open>Calendar dates\<close>

text \<open>
  A \<^verbatim>\<open>datetime.date\<close>. Python keeps \<open>1 \<le> year \<le> 9999\<close>, \<open>1 \<le> month \<le> 12\<close> and
  \<open>1 \<le> day \<le>\<close> the length of the month in every date object (\<open>valid_date\<close>).
\<close>

record date =
  year :: nat
  month :: nat
  day :: nat

text \<open>\<^verbatim>\<open>calendar.mdays\<close>: the month lengths of a common year, index 0 unused.\<close>

definition mdays :: "nat list" where
  "mdays = [0, 31, 28, 31, 30, 31, 30, 31, 31, 30, 31, 30, 31]"

definition isleap :: "nat \<Rightarrow> bool" where
  "isleap y \<longleftrightarrow> y mod 4 = 0 \<and> (y mod 100 \<noteq> 0 \<or> y mod 400 = 0)"

text \<open>The length of a month as the \<^verbatim>\<open>datetime\<close> constructors check it (leap years counted).\<close>

definition days_in_month :: "nat \<Rightarrow> nat \<Rightarrow> nat" where
  "days_in_month y m = (if m = 2 \<and> isleap y then 29 else mdays ! m)"

definition valid_date :: "date \<Rightarrow> bool" where
  "valid_date d \<longleftrightarrow>
     1 \<le> year d \<and> year d \<le> 9999 \<and> 1 \<le> month d \<and> month d \<le> 12 \<and>
     1 \<le> day d \<and> day d \<le> days_in_month (year d) (month d)"

text \<open>Comparison of dates, as Python compares them: by year, then month, then day.\<close>

definition date_less :: "date \<Rightarrow> date \<Rightarrow> bool" where
  "date_less a b \<longleftrightarrow>
     year a < year b \<or> (year a = year b \<and> (month a < month b \<or> (month a = month b \<and> day a < day b)))"

definition date_le :: "date \<Rightarrow> date \<Rightarrow> bool" where
  "date_le a b \<longleftrightarrow> date_less a b \<or> (year a = year b \<and> month a = month b \<and> day a = day b)"

text \<open>
  \<^verbatim>\<open>d - datetime.timedelta(days=n)\<close>: the date \<open>n\<close> calendar days before \<open>d\<close>, one day
  at a time; Python raises \<^verbatim>\<open>OverflowError\<close> when the result would lie before
  \<^verbatim>\<open>date.min\<close>, the first of January of year 1.
\<close>

definition yesterday :: "date \<Rightarrow> pyerror + date" where
  "yesterday d =
     (if 1 < day d then Inr (d\<lparr>day := day d - 1\<rparr>)
      else if 1 < month d
        then Inr (d\<lparr>month := month d - 1, day := days_in_month (year d) (month d - 1)\<rparr>)
      else if 1 < year d then Inr \<lparr>year = year d - 1, month = 12, day = 31\<rparr>
      else Inl OverflowError)"

fun date_sub_days :: "date \<Rightarrow> nat \<Rightarrow> pyerror + date" where
  "date_sub_days d 0 = Inr d"
| "date_sub_days d (Suc n) =
     (case yesterday d of Inl e \<Rightarrow> Inl e | Inr d' \<Rightarrow> date_sub_days d' n)"

text \<open>
  \<^verbatim>\<open>date.isoformat()\<close>, that is \<^verbatim>\<open>"%04d-%02d-%02d" % (year, month, day)\<close>. The year of
  a date object is below 10000, its month and day below 100, so \<^verbatim>\<open>%04d\<close> writes four
  digits and \<^verbatim>\<open>%02d\<close> writes two.
\<close>

definition digit_char :: "nat \<Rightarrow> char" where
  "digit_char n = char_of (48 + n)"

definition pad2 :: "nat \<Rightarrow> string" where
  "pad2 n = [digit_char (n div 10), digit_char (n mod 10)]"

definition pad4 :: "nat \<Rightarrow> string" where
  "pad4 n = pad2 (n div 100) @ pad2 (n mod 100)"

definition isoformat :: "date \<Rightarrow> string" where
  "isoformat d = pad4 (year d) @ ''-'' @ pad2 (month d) @ ''-'' @ pad2 (day d)"

section \<open>Parsing a timestamp\<close>

text \<open>
  \<^verbatim>\<open>datetime.datetime.strptime(s, '%Y-%m-%dT%H:%M:%S.%fZ')\<close>. The library turns the
  format into a regular expression, compiled with \<^verbatim>\<open>IGNORECASE\<close>, in which each
  directive is a group:
  \<^verbatim>\<open>%Y  \d\d\d\d\<close>,
  \<^verbatim>\<open>%m  1[0-2]|0[1-9]|[1-9]\<close>,
  \<^verbatim>\<open>%d  3[0-1]|[1-2]\d|0[1-9]|[1-9]| [1-9]\<close>,
  \<^verbatim>\<open>%H  2[0-3]|[0-1]\d|\d\<close>,
  \<^verbatim>\<open>%M  [0-5]\d|\d\<close>,
  \<^verbatim>\<open>%S  6[0-1]|[0-5]\d|\d\<close>,
  \<^verbatim>\<open>%f  [0-9]{1,6}\<close>.
  It matches the expression at the start of the string, raises \<^verbatim>\<open>ValueError\<close> when
  there is no match or when the match leaves text over, converts the groups with
  \<^verbatim>\<open>int\<close>, and builds the \<^verbatim>\<open>datetime\<close>, whose constructor raises \<^verbatim>\<open>ValueError\<close> for
  a year 0, a day beyond the end of the month or a second beyond 59.

  A matcher maps a string to the list of its matches at the start of the string, each
  the matched text with the rest, in the order in which a backtracking engine tries them.
\<close>

type_synonym matcher = "string \<Rightarrow> (string \<times> string) list"

definition re_one :: "string \<Rightarrow> matcher" where
  "re_one cs s = (case s of [] \<Rightarrow> [] | c # r \<Rightarrow> if c \<in> set cs then [([c], r)] else [])"

definition re_seq :: "matcher \<Rightarrow> matcher \<Rightarrow> matcher" where
  "re_seq p q s = concat (map (\<lambda>(a, r). map (\<lambda>(b, r'). (a @ b, r')) (q r)) (p s))"

definition re_alt :: "matcher \<Rightarrow> matcher \<Rightarrow> matcher" where
  "re_alt p q s = p s @ q s"

definition re_digit :: matcher where
  "re_digit = re_one ''0123456789''"

definition re_nonzero :: matcher where
  "re_nonzero = re_one ''123456789''"

definition re_Y :: matcher where
  "re_Y = re_seq re_digit (re_seq re_digit (re_seq re_digit re_digit))"

definition re_m :: matcher where
  "re_m = re_alt (re_seq (re_one ''1'') (re_one ''012''))
         (re_alt (re_seq (re_one ''0'') re_nonzero) re_nonzero)"

definition re_d :: matcher where
  "re_d = re_alt (re_seq (re_one ''3'') (re_one ''01''))
         (re_alt (re_seq (re_one ''12'') re_digit)
         (re_alt (re_seq (re_one ''0'') re_nonzero)
         (re_alt re_nonzero (re_seq (re_one '' '') re_nonzero))))"

definition re_H :: matcher where
  "re_H = re_alt (re_seq (re_one ''2'') (re_one ''0123''))
         (re_alt (re_seq (re_one ''01'') re_digit) re_digit)"

definition re_M :: matcher where
  "re_M = re_alt (re_seq (re_one ''012345'') re_digit) re_digit"

definition re_S :: matcher where
  "re_S = re_alt (re_seq (re_one ''6'') (re_one ''01''))
         (re_alt (re_seq (re_one ''012345'') re_digit) re_digit)"

text \<open>An optional part, tried before it is skipped (repetition is greedy).\<close>

definition re_opt :: "matcher \<Rightarrow> matcher" where
  "re_opt p s = p s @ [([], s)]"

definition re_f :: matcher where
  "re_f = re_seq re_digit (re_opt (re_seq re_digit (re_opt (re_seq re_digit
            (re_opt (re_seq re_digit (re_opt (re_seq re_digit (re_opt re_digit)))))))))"

text \<open>
  The whole expression. The literal \<^verbatim>\<open>T\<close> and \<^verbatim>\<open>Z\<close> of the format match either case
  under \<^verbatim>\<open>IGNORECASE\<close>. A match is the seven groups with the text left over.
\<close>

type_synonym groups = "string \<times> string \<times> string \<times> string \<times> string \<times> string \<times> string"

definition format_regex_match :: "string \<Rightarrow> (groups \<times> string) list" where
  "format_regex_match s =
     [((gY, gm, gd, gH, gM, gS, gf), r14).
        (gY, r1) \<leftarrow> re_Y s, (x1, r2) \<leftarrow> re_one ''-'' r1,
        (gm, r3) \<leftarrow> re_m r2, (x2, r4) \<leftarrow> re_one ''-'' r3,
        (gd, r5) \<leftarrow> re_d r4, (x3, r6) \<leftarrow> re_one ''Tt'' r5,
        (gH, r7) \<leftarrow> re_H r6, (x4, r8) \<leftarrow> re_one '':'' r7,
        (gM, r9) \<leftarrow> re_M r8, (x5, r10) \<leftarrow> re_one '':'' r9,
        (gS, r11) \<leftarrow> re_S r10, (x6, r12) \<leftarrow> re_one ''.'' r11,
        (gf, r13) \<leftarrow> re_f r12, (x7, r14) \<leftarrow> re_one ''Zz'' r13]"

text \<open>\<^verbatim>\<open>int(s)\<close> on a group: decimal digits, after blanks at the front are stripped.\<close>

definition digit_val :: "char \<Rightarrow> nat" where
  "digit_val c = of_char c - 48"

definition py_int :: "string \<Rightarrow> nat" where
  "py_int s = foldl (\<lambda>a c. 10 * a + digit_val c) 0 (dropWhile (\<lambda>c. c = CHR '' '') s)"

record datetime =
  date_part :: date
  hour :: nat
  minute :: nat
  second :: nat
  microsecond :: nat

definition strptime :: "string \<Rightarrow> pyerror + datetime" where
  "strptime data_string =
     (case format_regex_match data_string of
        [] \<Rightarrow> Inl ValueError
      | ((gY, gm, gd, gH, gM, gS, gf), rest) # _ \<Rightarrow>
          if rest \<noteq> [] then Inl ValueError
          else
            let y = py_int gY; m = py_int gm; d = py_int gd;
                fraction = py_int (gf @ replicate (6 - length gf) CHR ''0'')
            in if y < 1 \<or> days_in_month y m < d \<or> 59 < py_int gS then Inl ValueError
               else Inr \<lparr>date_part = \<lparr>year = y, month = m, day = d\<rparr>,
                         hour = py_int gH, minute = py_int gM, second = py_int gS,
                         microsecond = fraction\<rparr>)"

section \<open>Snapshots and the inventory filter\<close>

text \<open>
  A snapshot as the provider's library hands it over: an identifier, a free-text
  description and the creation time, a string.
\<close>

record snapshot =
  snap_id :: string
  description :: string
  start_time :: string

text \<open>
  \<^verbatim>\<open>re.match(pattern, s)\<close> for a pattern of ordinary characters and \<^verbatim>\<open>.\<close>, which is all
  the pattern of \<^verbatim>\<open>get_snapshot_list\<close> holds: the pattern is matched at the start of
  \<open>s\<close>, an ordinary character matches itself, and \<^verbatim>\<open>.\<close> matches any character but a
  newline.
\<close>

fun re_match :: "string \<Rightarrow> string \<Rightarrow> bool" where
  "re_match [] s = True"
| "re_match (p # ps) [] = False"
| "re_match (p # ps) (c # cs) =
     ((if p = CHR ''.'' then c \<noteq> CHR 0x0A else c = p) \<and> re_match ps cs)"

text \<open>What the script writes to syslog.\<close>

datatype log_entry =
    Debug_Inventory_Count nat
  | Error_Inventory_Low nat
  | Info_Deleting snapshot
  | Error_Failed_Delete snapshot
  | Debug_Not_Deleting
  | Error_Negative_Count

text \<open>
  \<^verbatim>\<open>get_snapshot_list\<close>, from the list that \<^verbatim>\<open>conn.get_all_snapshots()\<close> returned; the
  global \<^verbatim>\<open>debug\<close> is \<^verbatim>\<open>True\<close>, as \<^verbatim>\<open>main\<close> sets it.
\<close>

definition managed_description :: string where
  "managed_description = ''Created by aws_snapshot_manager.py''"

definition get_snapshot_list ::
  "snapshot list \<Rightarrow> log_entry list \<Rightarrow> snapshot list \<times> log_entry list" where
  "get_snapshot_list all_snapshots log =
     (let archival_snapshot_list =
            filter (\<lambda>i. re_match managed_description (description i)) all_snapshots;
          log1 = log @ [Debug_Inventory_Count (length archival_snapshot_list)];
          log2 = (if length archival_snapshot_list < 7
                  then log1 @ [Error_Inventory_Low (length archival_snapshot_list)]
                  else log1)
      in (archival_snapshot_list, log2))"

section \<open>The retention pass\<close>

text \<open>
  The loop of \<^verbatim>\<open>manage_snapshot_inventory\<close> over the inventory, with the list
  \<^verbatim>\<open>expired_snapshots\<close> built so far. A timestamp that does not parse raises out of
  the loop. The month of a parsed date is between 1 and 12, so the index into
  \<^verbatim>\<open>calendar.mdays\<close> is in range.
\<close>

fun expire_loop :: "date \<Rightarrow> snapshot list \<Rightarrow> snapshot list \<Rightarrow> pyerror + snapshot list" where
  "expire_loop week_delta [] expired_snapshots = Inr expired_snapshots"
| "expire_loop week_delta (snapshot # rest) expired_snapshots =
     (case strptime (start_time snapshot) of
        Inl e \<Rightarrow> Inl e
      | Inr snapshot_datetime \<Rightarrow>
          (let snapshot_date = date_part snapshot_datetime
           in if start_time snapshot \<le> isoformat week_delta
                 \<and> day snapshot_date \<noteq> mdays ! month snapshot_date
              then expire_loop week_delta rest (expired_snapshots @ [snapshot])
              else expire_loop week_delta rest expired_snapshots))"

text \<open>
  Lines 93 to 103: the cutoff seven days before \<open>today\<close> (the value of
  \<^verbatim>\<open>datetime.date.today()\<close>, a parameter here) and the loop. The variable
  \<^verbatim>\<open>last_monthday\<close> of the source is never read.
\<close>

definition expired_snapshots_of :: "date \<Rightarrow> snapshot list \<Rightarrow> pyerror + snapshot list" where
  "expired_snapshots_of today archival_snapshot_list =
     (case date_sub_days today 7 of
        Inl e \<Rightarrow> Inl e
      | Inr week_delta \<Rightarrow> expire_loop week_delta archival_snapshot_list [])"

text \<open>The snapshots of the inventory that the pass leaves alone.\<close>

definition kept_snapshots :: "snapshot list \<Rightarrow> snapshot list \<Rightarrow> snapshot list" where
  "kept_snapshots archival_snapshot_list expired = filter (\<lambda>s. s \<notin> set expired) archival_snapshot_list"

section \<open>Deleting\<close>

text \<open>
  The provider's state is of any type \<open>'w\<close>; \<^verbatim>\<open>snapshot.delete()\<close> is a parameter that
  returns or raises, leaving a new state either way. The state of a run is the
  provider's state, the syslog, and the history of the calls to \<^verbatim>\<open>delete\<close>.
\<close>

datatype 'w outcome = Returns 'w | Raises 'w

record 'w run_state =
  provider :: 'w
  syslog :: "log_entry list"
  delete_calls :: "snapshot list"

text \<open>
  \<^verbatim>\<open>delete_snapshots\<close>: the bare \<^verbatim>\<open>except\<close> catches whatever \<^verbatim>\<open>delete\<close> raises, and the
  function ends without a \<^verbatim>\<open>return\<close>, so its value is \<^verbatim>\<open>None\<close>.
\<close>

fun delete_snapshots ::
  "(snapshot \<Rightarrow> 'w \<Rightarrow> 'w outcome) \<Rightarrow> snapshot list \<Rightarrow> 'w run_state \<Rightarrow> pyresult \<times> 'w run_state" where
  "delete_snapshots delete [] st = (PyNone, st)"
| "delete_snapshots delete (snapshot # rest) st =
     (let st1 = st\<lparr>syslog := syslog st @ [Info_Deleting snapshot],
                    delete_calls := delete_calls st @ [snapshot]\<rparr>
      in case delete snapshot (provider st1) of
           Returns w \<Rightarrow> delete_snapshots delete rest (st1\<lparr>provider := w\<rparr>)
         | Raises w \<Rightarrow>
             delete_snapshots delete rest
               (st1\<lparr>provider := w, syslog := syslog st1 @ [Error_Failed_Delete snapshot]\<rparr>))"

text \<open>\<^verbatim>\<open>manage_snapshot_inventory\<close>, whole: the three branches on \<^verbatim>\<open>len(expired_snapshots)\<close>.\<close>

definition manage_snapshot_inventory ::
  "date \<Rightarrow> (snapshot \<Rightarrow> 'w \<Rightarrow> 'w outcome) \<Rightarrow> snapshot list \<Rightarrow> 'w run_state
     \<Rightarrow> pyerror + (pyresult \<times> 'w run_state)" where
  "manage_snapshot_inventory today delete archival_snapshot_list st =
     (case expired_snapshots_of today archival_snapshot_list of
        Inl e \<Rightarrow> Inl e
      | Inr expired_snapshots \<Rightarrow>
          if int (length expired_snapshots) > 0
            then Inr (delete_snapshots delete expired_snapshots st)
          else if int (length expired_snapshots) = 0
            then Inr (PyInt 0, st\<lparr>syslog := syslog st @ [Debug_Not_Deleting]\<rparr>)
          else Inr (PyInt 1, st\<lparr>syslog := syslog st @ [Error_Negative_Count]\<rparr>))"

section \<open>Auxiliary notions\<close>

text \<open>The character classes \<^verbatim>\<open>[0-9]\<close> and \<^verbatim>\<open>[1-9]\<close> of the directives.\<close>

definition is_digit :: "char \<Rightarrow> bool" where
  "is_digit c \<longleftrightarrow> c \<in> set ''0123456789''"

definition is_nonzero :: "char \<Rightarrow> bool" where
  "is_nonzero c \<longleftrightarrow> c \<in> set ''123456789''"

text \<open>The test of the loop body on one snapshot whose timestamp parses.\<close>

definition is_expired :: "date \<Rightarrow> snapshot \<Rightarrow> bool" where
  "is_expired week_delta s \<longleftrightarrow>
     (case strptime (start_time s) of
        Inl e \<Rightarrow> False
      | Inr dt \<Rightarrow> start_time s \<le> isoformat week_delta
                 \<and> day (date_part dt) \<noteq> mdays ! month (date_part dt))"

text \<open>What a call of \<^verbatim>\<open>delete\<close> leaves behind, and whether it raised.\<close>

definition state_after :: "'w outcome \<Rightarrow> 'w" where
  "state_after r = (case r of Returns w \<Rightarrow> w | Raises w \<Rightarrow> w)"

definition raised :: "'w outcome \<Rightarrow> bool" where
  "raised r = (case r of Returns w \<Rightarrow> False | Raises w \<Rightarrow> True)"

text \<open>
  Data for the examples: a snapshot that the script took, with the description that
  \<^verbatim>\<open>take_snapshot\<close> writes; a provider that keeps the list of the snapshots deleted
  so far and whose \<^verbatim>\<open>delete\<close> raises for the snapshot with one given identifier; the
  state in which a run starts.
\<close>

definition managed_snapshot :: "string \<Rightarrow> string \<Rightarrow> snapshot" where
  "managed_snapshot i t =
     \<lparr>snap_id = i,
      description = ''Created by aws_snapshot_manager.py at 2012-05-01 03:00:01.000001'',
      start_time = t\<rparr>"

definition flaky_delete :: "string \<Rightarrow> snapshot \<Rightarrow> snapshot list \<Rightarrow> snapshot list outcome" where
  "flaky_delete bad s w = (if snap_id s = bad then Raises w else Returns (w @ [s]))"

definition fresh_run :: "snapshot list run_state" where
  "fresh_run = \<lparr>provider = [], syslog = [], delete_calls = []\<rparr>"

section \<open>Digits, padding and the order of strings\<close>

lemma is_digit_props:
  "is_digit c \<Longrightarrow> digit_char (digit_val c) = c \<and> digit_val c < 10 \<and> c \<noteq> CHR '' ''"
  by (auto simp: is_digit_def digit_char_def digit_val_def char_of_eq_iff)

lemma is_nonzero_props:
  "is_nonzero c \<Longrightarrow> is_digit c \<and> 0 < digit_val c \<and> CHR ''0'' < c"
  by (auto simp: is_nonzero_def is_digit_def digit_val_def)

lemma digit_char_mono: "a < b \<Longrightarrow> b < 10 \<Longrightarrow> digit_char a < digit_char b"
  by (simp add: digit_char_def less_char_def)

lemma digit_char_zero: "digit_char 0 = CHR ''0''"
  by (simp add: digit_char_def char_of_eq_iff)

lemma div_mod_lex:
  fixes a b k :: nat
  assumes "a < b"
  shows "a div k < b div k \<or> (a div k = b div k \<and> a mod k < b mod k)"
proof (cases "a div k = b div k")
  case True
  have "k * (a div k) + a mod k < k * (b div k) + b mod k"
    using assms by (simp only: mult_div_mod_eq)
  then have "k * (b div k) + a mod k < k * (b div k) + b mod k"
    by (simp only: True)
  then have "a mod k < b mod k" by (simp only: nat_add_left_cancel_less)
  with True show ?thesis by simp
next
  case False
  moreover have "a div k \<le> b div k" using assms by (simp add: div_le_mono)
  ultimately show ?thesis by simp
qed

lemma pad2_mono: "a < b \<Longrightarrow> b < 100 \<Longrightarrow> pad2 a < pad2 b"
proof -
  assume ab: "a < b" and b: "b < 100"
  have "a div 10 < b div 10 \<or> (a div 10 = b div 10 \<and> a mod 10 < b mod 10)"
    using ab by (rule div_mod_lex)
  moreover have "b div 10 < 10" using b by simp
  moreover have "b mod 10 < 10" by simp
  ultimately show ?thesis
    by (auto simp: pad2_def intro: digit_char_mono)
qed

lemma pad2_small: "n < 10 \<Longrightarrow> pad2 n = [CHR ''0'', digit_char n]"
  by (simp add: pad2_def digit_char_zero)

lemma pad2_digits:
  "is_digit c1 \<Longrightarrow> is_digit c2 \<Longrightarrow> pad2 (10 * digit_val c1 + digit_val c2) = [c1, c2]"
proof -
  assume c1: "is_digit c1" and c2: "is_digit c2"
  let ?v1 = "digit_val c1" and ?v2 = "digit_val c2"
  from is_digit_props[OF c1] is_digit_props[OF c2]
  have p: "digit_char ?v1 = c1" "digit_char ?v2 = c2" "?v1 < 10" "?v2 < 10" by simp_all
  have "(10 * ?v1 + ?v2) div 10 = ?v1" "(10 * ?v1 + ?v2) mod 10 = ?v2" using p by simp_all
  then show ?thesis using p by (simp add: pad2_def)
qed

lemma append_less_same_length:
  fixes a b :: "'a::linorder list"
  shows "length a = length b \<Longrightarrow> (a @ x < b @ y \<longleftrightarrow> a < b \<or> (a = b \<and> x < y))"
  by (induction a b rule: list_induct2) auto

lemma pad2_length: "length (pad2 n) = 2" by (simp add: pad2_def)

lemma pad4_length: "length (pad4 n) = 4" by (simp add: pad4_def pad2_def)

lemma pad4_mono: "a < b \<Longrightarrow> b < 10000 \<Longrightarrow> pad4 a < pad4 b"
proof -
  assume ab: "a < b" and b: "b < 10000"
  have c: "a div 100 < b div 100 \<or> (a div 100 = b div 100 \<and> a mod 100 < b mod 100)"
    using ab by (rule div_mod_lex)
  have "b div 100 < 100" using b by simp
  moreover have "b mod 100 < 100" by simp
  ultimately have "pad2 (a div 100) < pad2 (b div 100)
      \<or> (pad2 (a div 100) = pad2 (b div 100) \<and> pad2 (a mod 100) < pad2 (b mod 100))"
    using c by (auto intro: pad2_mono)
  then show ?thesis
    by (simp add: pad4_def append_less_same_length pad2_length)
qed

lemma pad4_digits:
  assumes "is_digit c1" "is_digit c2" "is_digit c3" "is_digit c4"
  shows "pad4 (10 * (10 * (10 * digit_val c1 + digit_val c2) + digit_val c3) + digit_val c4)
           = [c1, c2, c3, c4]"
proof -
  let ?hi = "10 * digit_val c1 + digit_val c2" and ?lo = "10 * digit_val c3 + digit_val c4"
  have lo: "?lo < 100" using is_digit_props[OF assms(3)] is_digit_props[OF assms(4)] by simp
  have eq: "10 * (10 * ?hi + digit_val c3) + digit_val c4 = ?hi * 100 + ?lo" by simp
  have "(?hi * 100 + ?lo) div 100 = ?hi" "(?hi * 100 + ?lo) mod 100 = ?lo"
    using lo by (simp_all only: div_mult_self3 mod_mult_self3 div_less mod_less add_0_right)
  then show ?thesis
    unfolding eq pad4_def by (simp only: pad2_digits assms append_Cons append_Nil)
qed

lemma py_int_digits2: "is_digit c1 \<Longrightarrow> py_int [c1, c2] = 10 * digit_val c1 + digit_val c2"
  by (simp add: py_int_def is_digit_props)

lemma py_int_digit1: "is_digit c1 \<Longrightarrow> py_int [c1] = digit_val c1"
  by (simp add: py_int_def is_digit_props)

lemma py_int_blank: "is_digit c1 \<Longrightarrow> py_int [CHR '' '', c1] = digit_val c1"
  by (simp add: py_int_def is_digit_props)

lemma py_int_digits4:
  "is_digit c1 \<Longrightarrow> py_int [c1, c2, c3, c4]
     = 10 * (10 * (10 * digit_val c1 + digit_val c2) + digit_val c3) + digit_val c4"
  by (simp add: py_int_def is_digit_props)

section \<open>What the regular expression matches\<close>

lemma in_re_one:
  "(a, r) \<in> set (re_one cs s) \<longleftrightarrow> (\<exists>c. c \<in> set cs \<and> a = [c] \<and> s = c # r)"
  by (cases s) (auto simp: re_one_def)

lemma in_re_seq:
  "(a, r) \<in> set (re_seq p q s) \<longleftrightarrow>
     (\<exists>a1 r1 a2. (a1, r1) \<in> set (p s) \<and> (a2, r) \<in> set (q r1) \<and> a = a1 @ a2)"
  by (force simp: re_seq_def)

lemma in_re_alt:
  "(a, r) \<in> set (re_alt p q s) \<longleftrightarrow> (a, r) \<in> set (p s) \<or> (a, r) \<in> set (q s)"
  by (simp add: re_alt_def)

lemma in_re_digit:
  "(a, r) \<in> set (re_digit s) \<longleftrightarrow> (\<exists>c. is_digit c \<and> a = [c] \<and> s = c # r)"
  unfolding re_digit_def in_re_one is_digit_def ..

lemma in_re_nonzero:
  "(a, r) \<in> set (re_nonzero s) \<longleftrightarrow> (\<exists>c. is_nonzero c \<and> a = [c] \<and> s = c # r)"
  unfolding re_nonzero_def in_re_one is_nonzero_def ..

lemma re_Y_form:
  assumes "(a, r) \<in> set (re_Y s)"
  shows "\<exists>c1 c2 c3 c4. is_digit c1 \<and> is_digit c2 \<and> is_digit c3 \<and> is_digit c4
           \<and> a = [c1, c2, c3, c4] \<and> s = a @ r"
  using assms unfolding re_Y_def in_re_seq in_re_digit by auto

lemma small_digits:
  "is_digit CHR ''0''" "is_digit CHR ''1''" "is_digit CHR ''2''" "is_digit CHR ''3''"
  by (simp_all add: is_digit_def)

lemma re_m_form:
  assumes "(a, r) \<in> set (re_m s)"
  shows "s = a @ r \<and> ((\<exists>c1 c2. is_digit c1 \<and> is_digit c2 \<and> a = [c1, c2])
                      \<or> (\<exists>k. is_nonzero k \<and> a = [k]))"
  using assms unfolding re_m_def in_re_alt in_re_seq in_re_nonzero in_re_one
  by (auto simp: small_digits is_nonzero_props)

lemma re_d_form:
  assumes "(a, r) \<in> set (re_d s)"
  shows "s = a @ r \<and> ((\<exists>c1 c2. is_digit c1 \<and> is_digit c2 \<and> a = [c1, c2])
                      \<or> (\<exists>k. is_nonzero k \<and> a = [k])
                      \<or> (\<exists>k. is_nonzero k \<and> a = [CHR '' '', k]))"
  using assms unfolding re_d_def in_re_alt in_re_seq in_re_nonzero in_re_digit in_re_one
  by (auto simp: small_digits is_nonzero_props)

lemma format_regex_match_form:
  assumes "((gY, gm, gd, gH, gM, gS, gf), rest) \<in> set (format_regex_match s)"
  shows "\<exists>r1 r2 r3. (gY, CHR ''-'' # r1) \<in> set (re_Y s) \<and> (gm, CHR ''-'' # r2) \<in> set (re_m r1)
            \<and> (gd, r3) \<in> set (re_d r2) \<and> r3 \<noteq> []"
  using assms unfolding format_regex_match_def
  by (auto simp: in_re_one) (metis list.distinct(1))+

lemma strptime_groups:
  assumes "strptime s = Inr dt"
  shows "\<exists>gY gm gd r1 r2 r3.
           (gY, CHR ''-'' # r1) \<in> set (re_Y s) \<and> (gm, CHR ''-'' # r2) \<in> set (re_m r1)
           \<and> (gd, r3) \<in> set (re_d r2) \<and> r3 \<noteq> []
           \<and> date_part dt = \<lparr>year = py_int gY, month = py_int gm, day = py_int gd\<rparr>
           \<and> 1 \<le> py_int gY \<and> py_int gd \<le> days_in_month (py_int gY) (py_int gm)"
proof (cases "format_regex_match s")
  case Nil
  with assms show ?thesis by (simp add: strptime_def)
next
  case (Cons x xs)
  obtain gY gm gd gH gM gS gf rest where x: "x = ((gY, gm, gd, gH, gM, gS, gf), rest)"
    by (metis prod_cases3 prod.exhaust)
  have "((gY, gm, gd, gH, gM, gS, gf), rest) \<in> set (format_regex_match s)"
    by (simp add: Cons x)
  from format_regex_match_form[OF this] obtain r1 r2 r3 where
    f: "(gY, CHR ''-'' # r1) \<in> set (re_Y s)" "(gm, CHR ''-'' # r2) \<in> set (re_m r1)"
       "(gd, r3) \<in> set (re_d r2)" "r3 \<noteq> []" by blast
  from assms have "date_part dt = \<lparr>year = py_int gY, month = py_int gm, day = py_int gd\<rparr>
      \<and> 1 \<le> py_int gY \<and> py_int gd \<le> days_in_month (py_int gY) (py_int gm)"
    by (auto simp: strptime_def Cons x Let_def split: if_splits)
  with f show ?thesis by blast
qed

section \<open>A timestamp against an ISO date\<close>

lemma less_append_strict:
  fixes a b :: "'a::linorder list"
  shows "length a = length b \<Longrightarrow> a < b \<Longrightarrow> a @ x < b @ y"
  by (simp add: append_less_same_length)

lemma isoformat_less_timestamp:
  assumes parse: "strptime s = Inr dt"
    and noblank: "CHR '' '' \<notin> set s"
    and c: "valid_date c"
    and le: "date_le c (date_part dt)"
  shows "isoformat c < s"
proof -
  from strptime_groups[OF parse] obtain gY gm gd r1 r2 r3 where
    Y: "(gY, CHR ''-'' # r1) \<in> set (re_Y s)" and M: "(gm, CHR ''-'' # r2) \<in> set (re_m r1)"
    and D: "(gd, r3) \<in> set (re_d r2)" and r3: "r3 \<noteq> []"
    and dp: "date_part dt = \<lparr>year = py_int gY, month = py_int gm, day = py_int gd\<rparr>"
    by blast
  from re_Y_form[OF Y] obtain c1 c2 c3 c4 where
    dY: "is_digit c1" "is_digit c2" "is_digit c3" "is_digit c4"
    and gY: "gY = [c1, c2, c3, c4]" and s: "s = gY @ CHR ''-'' # r1" by blast
  from re_m_form[OF M] have r1: "r1 = gm @ CHR ''-'' # r2"
    and fm: "(\<exists>m1 m2. is_digit m1 \<and> is_digit m2 \<and> gm = [m1, m2]) \<or> (\<exists>k. is_nonzero k \<and> gm = [k])"
    by blast+
  from re_d_form[OF D] have r2: "r2 = gd @ r3"
    and fd: "(\<exists>d1 d2. is_digit d1 \<and> is_digit d2 \<and> gd = [d1, d2]) \<or> (\<exists>k. is_nonzero k \<and> gd = [k])
              \<or> (\<exists>k. is_nonzero k \<and> gd = [CHR '' '', k])"
    by blast+
  have whole: "s = gY @ CHR ''-'' # gm @ CHR ''-'' # gd @ r3"
    by (simp add: s r1 r2)
  have yv: "year (date_part dt) = py_int gY" and mv: "month (date_part dt) = py_int gm"
    and dv: "day (date_part dt) = py_int gd" by (simp_all add: dp)
  have padY: "pad4 (py_int gY) = gY"
    by (simp only: gY py_int_digits4[OF dY(1)] pad4_digits[OF dY])
  have ylt: "py_int gY < 10000"
    using is_digit_props[OF dY(1)] is_digit_props[OF dY(2)] is_digit_props[OF dY(3)]
      is_digit_props[OF dY(4)]
    by (simp add: gY py_int_digits4[OF dY(1)])
  have iso: "isoformat c = pad4 (year c) @ CHR ''-'' # pad2 (month c) @ CHR ''-'' # pad2 (day c)"
    by (simp add: isoformat_def)
  have cm: "month c \<le> 12" and cd: "day c \<le> 31"
    using c by (auto simp: valid_date_def days_in_month_def mdays_def nth_Cons' split: if_splits)
  show ?thesis
  proof (cases "year c < py_int gY")
    case True
    then have "pad4 (year c) < gY" using pad4_mono[OF True ylt] padY by simp
    then show ?thesis
      unfolding iso whole by (rule less_append_strict[rotated]) (simp add: pad4_length gY)
  next
    case False
    with le have yeq: "year c = py_int gY"
      and rest: "month c < py_int gm \<or> (month c = py_int gm \<and> day c \<le> py_int gd)"
      by (auto simp: date_le_def date_less_def yv mv dv)
    have tail: "pad2 (month c) @ CHR ''-'' # pad2 (day c) < gm @ CHR ''-'' # gd @ r3"
    proof -
      from fm show ?thesis
      proof (elim disjE exE conjE)
        fix m1 m2 assume dm: "is_digit m1" "is_digit m2" and gm: "gm = [m1, m2]"
        have padM: "pad2 (py_int gm) = gm"
          by (simp only: gm py_int_digits2[OF dm(1)] pad2_digits[OF dm])
        have mlt: "py_int gm < 100"
          using is_digit_props[OF dm(1)] is_digit_props[OF dm(2)]
          by (simp add: gm py_int_digits2[OF dm(1)])
        show ?thesis
        proof (cases "month c < py_int gm")
          case True
          then have "pad2 (month c) < gm" using pad2_mono[OF True mlt] padM by simp
          then show ?thesis
            by (rule less_append_strict[rotated]) (simp add: pad2_length gm)
        next
          case False
          with rest have meq: "month c = py_int gm" and dle: "day c \<le> py_int gd" by auto
          have dtail: "pad2 (day c) < gd @ r3"
          proof -
            from fd show ?thesis
            proof (elim disjE exE conjE)
              fix d1 d2 assume dd: "is_digit d1" "is_digit d2" and gd: "gd = [d1, d2]"
              have padD: "pad2 (py_int gd) = gd"
                by (simp only: gd py_int_digits2[OF dd(1)] pad2_digits[OF dd])
              have dlt: "py_int gd < 100"
                using is_digit_props[OF dd(1)] is_digit_props[OF dd(2)]
                by (simp add: gd py_int_digits2[OF dd(1)])
              show ?thesis
              proof (cases "day c < py_int gd")
                case True
                then have "pad2 (day c) < gd" using pad2_mono[OF True dlt] padD by simp
                then have "pad2 (day c) @ [] < gd @ r3"
                  by (rule less_append_strict[rotated]) (simp add: pad2_length gd)
                then show ?thesis by simp
              next
                case False
                with dle have "pad2 (day c) = gd" using padD by simp
                moreover have "gd < gd @ r3"
                  using r3 by (cases r3) (simp_all add: gd)
                ultimately show ?thesis by simp
              qed
            next
              fix k assume k: "is_nonzero k" and gd: "gd = [k]"
              from is_nonzero_props[OF k] have kd: "is_digit k" and k0: "CHR ''0'' < k" by simp_all
              have "py_int gd < 10" using is_digit_props[OF kd] by (simp add: gd py_int_digit1[OF kd])
              with dle have "day c < 10" by simp
              then show ?thesis using k0 by (simp add: pad2_small gd)
            next
              fix k assume "gd = [CHR '' '', k]"
              with noblank show ?thesis by (simp add: whole)
            qed
          qed
          have "pad2 (month c) = gm" using meq padM by simp
          then show ?thesis using dtail by (simp add: gm)
        qed
      next
        fix k assume k: "is_nonzero k" and gm: "gm = [k]"
        from is_nonzero_props[OF k] have kd: "is_digit k" and k0: "CHR ''0'' < k" by simp_all
        have "py_int gm < 10" using is_digit_props[OF kd] by (simp add: gm py_int_digit1[OF kd])
        with rest have "month c < 10" by auto
        then show ?thesis using k0 by (simp add: pad2_small gm)
      qed
    qed
    have "pad4 (year c) = gY" using yeq padY by simp
    then show ?thesis unfolding iso whole using tail by (simp add: gY)
  qed
qed

section \<open>Dates\<close>

lemma days_in_month_bounds:
  "1 \<le> m \<Longrightarrow> m \<le> 12 \<Longrightarrow> 28 \<le> days_in_month y m \<and> days_in_month y m \<le> 31"
proof -
  assume "1 \<le> m" "m \<le> 12"
  then have "m \<in> {1, 2, 3, 4, 5, 6, 7, 8, 9, 10, 11, 12}" by simp arith
  then show ?thesis by (auto simp: days_in_month_def mdays_def)
qed

lemma yesterday_valid:
  assumes "valid_date d" "yesterday d = Inr d'"
  shows "valid_date d' \<and> date_less d' d"
proof (cases "1 < day d")
  case True
  with assms show ?thesis by (auto simp: yesterday_def valid_date_def date_less_def)
next
  case False
  note day1 = this
  show ?thesis
  proof (cases "1 < month d")
    case True
    with day1 assms have d': "d' = d\<lparr>month := month d - 1, day := days_in_month (year d) (month d - 1)\<rparr>"
      by (simp add: yesterday_def)
    have "1 \<le> month d - 1" "month d - 1 \<le> 12" using True assms(1) by (auto simp: valid_date_def)
    from days_in_month_bounds[OF this, of "year d"] True assms(1) show ?thesis
      by (auto simp: d' valid_date_def date_less_def)
  next
    case False
    with day1 assms show ?thesis
      by (auto simp: yesterday_def valid_date_def date_less_def days_in_month_def mdays_def
               split: if_splits)
  qed
qed

lemma date_sub_days_Suc:
  "date_sub_days d (Suc n) = (case date_sub_days d n of Inl e \<Rightarrow> Inl e | Inr d' \<Rightarrow> yesterday d')"
proof (induction n arbitrary: d)
  case 0
  show ?case by (simp split: sum.splits)
next
  case (Suc n)
  show ?case
  proof (cases "yesterday d")
    case (Inl e)
    then show ?thesis by simp
  next
    case (Inr d1)
    have "date_sub_days d (Suc (Suc n)) = date_sub_days d1 (Suc n)" by (simp add: Inr)
    also have "\<dots> = (case date_sub_days d1 n of Inl e \<Rightarrow> Inl e | Inr d' \<Rightarrow> yesterday d')"
      by (rule Suc.IH)
    also have "date_sub_days d1 n = date_sub_days d (Suc n)" by (simp add: Inr)
    finally show ?thesis .
  qed
qed

lemma date_sub_days_valid:
  "valid_date d \<Longrightarrow> date_sub_days d n = Inr d' \<Longrightarrow> valid_date d' \<and> date_le d' d"
proof (induction n arbitrary: d)
  case 0
  then show ?case by (simp add: date_le_def)
next
  case (Suc n)
  from Suc.prems(2) obtain d1 where y: "yesterday d = Inr d1" and r: "date_sub_days d1 n = Inr d'"
    by (auto split: sum.splits)
  from yesterday_valid[OF Suc.prems(1) y] have v1: "valid_date d1" and l1: "date_less d1 d" by simp_all
  from Suc.IH[OF v1 r] have "valid_date d'" "date_le d' d1" by simp_all
  with l1 show ?case by (auto simp: date_le_def date_less_def)
qed

lemma week_before:
  assumes "valid_date today" "date_sub_days today 6 = Inr lo" "date_sub_days today 7 = Inr wd"
  shows "valid_date wd \<and> date_less wd lo"
proof -
  have "date_sub_days today 7 = date_sub_days today (Suc 6)" by simp
  also have "\<dots> = yesterday lo" by (simp only: date_sub_days_Suc assms(2) sum.case)
  finally have y: "yesterday lo = Inr wd" using assms(3) by simp
  from date_sub_days_valid[OF assms(1,2)] have "valid_date lo" by simp
  from yesterday_valid[OF this y] show ?thesis .
qed

lemma date_less_le_trans: "date_less a b \<Longrightarrow> date_le b c \<Longrightarrow> date_le a c"
  by (auto simp: date_le_def date_less_def)

lemma date_sub_days_numeral:
  "date_sub_days d (numeral k) =
     (case yesterday d of Inl e \<Rightarrow> Inl e | Inr d' \<Rightarrow> date_sub_days d' (pred_numeral k))"
  by (simp add: numeral_eq_Suc)

lemma replicate_numeral: "replicate (numeral k) x = x # replicate (pred_numeral k) x"
  by (simp add: numeral_eq_Suc)

lemma re_m_range:
  assumes "(a, r) \<in> set (re_m s)"
  shows "1 \<le> py_int a \<and> py_int a \<le> 12"
  using assms unfolding re_m_def in_re_alt in_re_seq in_re_one re_nonzero_def
  by (auto simp: py_int_def digit_val_def)

lemma re_d_range:
  assumes "(a, r) \<in> set (re_d s)"
  shows "1 \<le> py_int a"
  using assms unfolding re_d_def in_re_alt in_re_seq in_re_one re_nonzero_def re_digit_def
  by (auto simp: py_int_def digit_val_def)

lemma strptime_valid_date:
  assumes "strptime s = Inr dt"
  shows "valid_date (date_part dt)"
proof -
  from strptime_groups[OF assms] obtain gY gm gd r1 r2 r3 where
    Y: "(gY, CHR ''-'' # r1) \<in> set (re_Y s)" and M: "(gm, CHR ''-'' # r2) \<in> set (re_m r1)"
    and D: "(gd, r3) \<in> set (re_d r2)"
    and dp: "date_part dt = \<lparr>year = py_int gY, month = py_int gm, day = py_int gd\<rparr>"
    and chk: "1 \<le> py_int gY" "py_int gd \<le> days_in_month (py_int gY) (py_int gm)"
    by blast
  from re_Y_form[OF Y] obtain c1 c2 c3 c4 where
    dY: "is_digit c1" "is_digit c2" "is_digit c3" "is_digit c4" and gY: "gY = [c1, c2, c3, c4]"
    by blast
  have "py_int gY \<le> 9999"
    using is_digit_props[OF dY(1)] is_digit_props[OF dY(2)] is_digit_props[OF dY(3)]
      is_digit_props[OF dY(4)]
    by (simp add: gY py_int_digits4[OF dY(1)])
  with re_m_range[OF M] re_d_range[OF D] chk show ?thesis
    by (simp add: valid_date_def dp)
qed

section \<open>ISO dates in order\<close>

lemma isoformat_length: "length (isoformat d) = 10"
  by (simp add: isoformat_def pad4_length pad2_length)

lemma valid_date_fields:
  "valid_date d \<Longrightarrow> year d < 10000 \<and> month d < 100 \<and> day d < 100"
proof -
  assume v: "valid_date d"
  then have m: "1 \<le> month d" "month d \<le> 12" by (simp_all add: valid_date_def)
  from days_in_month_bounds[OF m, of "year d"] v show ?thesis
    by (simp add: valid_date_def)
qed

lemma isoformat_mono:
  assumes "valid_date b" "date_less a b"
  shows "isoformat a < isoformat b"
proof -
  from valid_date_fields[OF assms(1)]
  have yb: "year b < 10000" and mb: "month b < 100" and db: "day b < 100" by simp_all
  show ?thesis
  proof (cases "year a < year b")
    case True
    from pad4_mono[OF True yb] show ?thesis
      unfolding isoformat_def by (rule less_append_strict[rotated]) (simp add: pad4_length)
  next
    case False
    with assms(2) have y: "year a = year b"
      and r: "month a < month b \<or> (month a = month b \<and> day a < day b)"
      by (auto simp: date_less_def)
    have "pad2 (month a) @ ''-'' @ pad2 (day a) < pad2 (month b) @ ''-'' @ pad2 (day b)"
    proof (cases "month a < month b")
      case True
      from pad2_mono[OF True mb] show ?thesis
        by (rule less_append_strict[rotated]) (simp add: pad2_length)
    next
      case False
      with r have m: "month a = month b" and d: "day a < day b" by auto
      from pad2_mono[OF d db] show ?thesis
        by (simp add: m append_less_same_length pad2_length)
    qed
    then show ?thesis
      by (simp add: isoformat_def y append_less_same_length pad4_length)
  qed
qed

lemma date_order_cases: "date_less d a \<or> date_le a d"
  by (auto simp: date_le_def date_less_def)

lemma date_less_not_le: "date_less d a \<Longrightarrow> \<not> date_le a d"
  by (auto simp: date_le_def date_less_def)

lemma date_le_isoformat:
  assumes "valid_date d" "date_le a d"
  shows "isoformat a < isoformat d \<or> isoformat a = isoformat d"
proof (cases "date_less a d")
  case True
  from isoformat_mono[OF assms(1) True] show ?thesis by simp
next
  case False
  with assms(2) show ?thesis by (simp add: date_le_def isoformat_def)
qed

lemma layout_order:
  assumes a: "valid_date a" and d: "valid_date d"
    and st: "st = isoformat d @ CHR ''T'' # tm"
  shows "st \<le> isoformat a \<longleftrightarrow> date_less d a"
proof (cases "date_less d a")
  case True
  from isoformat_mono[OF a True] have "isoformat d @ CHR ''T'' # tm < isoformat a @ []"
    by (rule less_append_strict[rotated]) (simp add: isoformat_length)
  with True show ?thesis by (simp add: st)
next
  case False
  with date_order_cases[of d a] have "date_le a d" by simp
  from date_le_isoformat[OF d this] have "isoformat a < isoformat d @ CHR ''T'' # tm"
  proof
    assume "isoformat a < isoformat d"
    then have "isoformat a @ [] < isoformat d @ CHR ''T'' # tm"
      by (rule less_append_strict[rotated]) (simp add: isoformat_length)
    then show ?thesis by simp
  next
    assume e: "isoformat a = isoformat d"
    have "isoformat d @ [] < isoformat d @ CHR ''T'' # tm"
      by (simp only: append_less_same_length[OF refl]) simp
    then show ?thesis by (simp add: e)
  qed
  with False show ?thesis by (simp add: st not_le)
qed

lemma eighth_day_before:
  assumes "valid_date today" "date_sub_days today 7 = Inr cutoff" "date_sub_days today 8 = Inr d8"
  shows "date_less d8 cutoff"
proof -
  have "date_sub_days today 8 = date_sub_days today (Suc 7)" by simp
  also have "\<dots> = yesterday cutoff" by (simp only: date_sub_days_Suc assms(2) sum.case)
  finally have y: "yesterday cutoff = Inr d8" using assms(3) by simp
  from date_sub_days_valid[OF assms(1,2)] have "valid_date cutoff" by simp
  from yesterday_valid[OF this y] show ?thesis by simp
qed

section \<open>The loop and the deletion\<close>

lemma strptime_error: "strptime s = Inl e \<Longrightarrow> e = ValueError"
  by (cases e) (auto simp: strptime_def Let_def split: list.splits if_splits prod.splits)

lemma expire_loop_parsed:
  "\<forall>s\<in>set snaps. \<exists>dt. strptime (start_time s) = Inr dt \<Longrightarrow>
   expire_loop wd snaps acc = Inr (acc @ filter (is_expired wd) snaps)"
proof (induction snaps arbitrary: acc)
  case Nil
  then show ?case by simp
next
  case (Cons s snaps)
  then obtain dt where dt: "strptime (start_time s) = Inr dt" by auto
  from Cons have IH: "\<And>acc. expire_loop wd snaps acc = Inr (acc @ filter (is_expired wd) snaps)"
    by simp
  have "is_expired wd s \<longleftrightarrow> start_time s \<le> isoformat wd
          \<and> day (date_part dt) \<noteq> mdays ! month (date_part dt)"
    by (simp add: is_expired_def dt)
  then show ?case by (simp add: dt IH Let_def)
qed

lemma expire_loop_unparsed:
  "\<exists>s\<in>set snaps. \<forall>dt. strptime (start_time s) \<noteq> Inr dt \<Longrightarrow>
   expire_loop wd snaps acc = Inl ValueError"
proof (induction snaps arbitrary: acc)
  case Nil
  then show ?case by simp
next
  case (Cons s snaps)
  show ?case
  proof (cases "strptime (start_time s)")
    case (Inl e)
    then show ?thesis using strptime_error[OF Inl] by simp
  next
    case (Inr dt)
    with Cons.prems have "\<exists>s\<in>set snaps. \<forall>dt. strptime (start_time s) \<noteq> Inr dt" by auto
    then have "\<And>acc. expire_loop wd snaps acc = Inl ValueError" by (rule Cons.IH)
    then show ?thesis by (simp add: Inr Let_def)
  qed
qed

lemma expire_loop_cases:
  "expire_loop wd snaps acc = Inl ValueError \<or> expire_loop wd snaps acc = Inr (acc @ filter (is_expired wd) snaps)"
proof (cases "\<forall>s\<in>set snaps. \<exists>dt. strptime (start_time s) = Inr dt")
  case True
  then show ?thesis by (simp add: expire_loop_parsed)
next
  case False
  then have "\<exists>s\<in>set snaps. \<forall>dt. strptime (start_time s) \<noteq> Inr dt" by auto
  then show ?thesis by (simp add: expire_loop_unparsed)
qed

lemma expire_loop_Inr:
  assumes "expire_loop wd snaps acc = Inr ex"
  shows "ex = acc @ filter (is_expired wd) snaps \<and> (\<forall>s\<in>set snaps. \<exists>dt. strptime (start_time s) = Inr dt)"
proof -
  have all: "\<forall>s\<in>set snaps. \<exists>dt. strptime (start_time s) = Inr dt"
  proof (rule ccontr)
    assume "\<not> ?thesis"
    then have "\<exists>s\<in>set snaps. \<forall>dt. strptime (start_time s) \<noteq> Inr dt" by auto
    then have "expire_loop wd snaps acc = Inl ValueError" by (rule expire_loop_unparsed)
    with assms show False by simp
  qed
  with assms show ?thesis by (simp add: expire_loop_parsed)
qed

lemma expired_snapshots_of_Inr:
  assumes "expired_snapshots_of today snaps = Inr ex"
  shows "\<exists>wd. date_sub_days today 7 = Inr wd \<and> ex = filter (is_expired wd) snaps
            \<and> (\<forall>s\<in>set snaps. \<exists>dt. strptime (start_time s) = Inr dt)"
proof (cases "date_sub_days today 7")
  case (Inl e)
  with assms show ?thesis by (simp add: expired_snapshots_of_def)
next
  case (Inr wd)
  with assms have "expire_loop wd snaps [] = Inr ex" by (simp add: expired_snapshots_of_def)
  from expire_loop_Inr[OF this] Inr show ?thesis by simp
qed

lemma delete_snapshots_result:
  "delete_snapshots delete xs st = (r, st') \<Longrightarrow>
     r = PyNone \<and> delete_calls st' = delete_calls st @ xs
     \<and> (\<exists>new. syslog st' = syslog st @ new \<and> Error_Negative_Count \<notin> set new
            \<and> Debug_Not_Deleting \<notin> set new)"
proof (induction xs arbitrary: st)
  case Nil
  then show ?case by simp
next
  case (Cons x xs)
  let ?st1 = "st\<lparr>syslog := syslog st @ [Info_Deleting x], delete_calls := delete_calls st @ [x]\<rparr>"
  show ?case
  proof (cases "delete x (provider st)")
    case (Returns w)
    with Cons.prems have "delete_snapshots delete xs (?st1\<lparr>provider := w\<rparr>) = (r, st')"
      by (simp add: Let_def)
    from Cons.IH[OF this] show ?thesis by auto
  next
    case (Raises w)
    with Cons.prems have "delete_snapshots delete xs
        (?st1\<lparr>provider := w, syslog := syslog ?st1 @ [Error_Failed_Delete x]\<rparr>) = (r, st')"
      by (simp add: Let_def)
    from Cons.IH[OF this] show ?thesis by auto
  qed
qed

lemma upt_0_Suc: "[0..<Suc n] = 0 # map Suc [0..<n]"
  by (simp only: upt_conv_Cons[OF zero_less_Suc] map_Suc_upt)

lemma delete_snapshots_effect:
  "delete_snapshots delete xs st = (r, st') \<Longrightarrow>
     provider st' = foldl (\<lambda>w s. state_after (delete s w)) (provider st) xs
     \<and> syslog st' = syslog st @ concat (map (\<lambda>i.
           (\<lambda>s w. Info_Deleting s # (if raised (delete s w) then [Error_Failed_Delete s] else []))
             (xs ! i) (foldl (\<lambda>w s. state_after (delete s w)) (provider st) (take i xs)))
         [0..<length xs])"
proof (induction xs arbitrary: st)
  case Nil
  then show ?case by simp
next
  case (Cons x xs)
  let ?st1 = "st\<lparr>syslog := syslog st @ [Info_Deleting x], delete_calls := delete_calls st @ [x]\<rparr>"
  show ?case
  proof (cases "delete x (provider st)")
    case (Returns w)
    with Cons.prems have "delete_snapshots delete xs (?st1\<lparr>provider := w\<rparr>) = (r, st')"
      by (simp add: Let_def)
    from Cons.IH[OF this] show ?thesis
      by (simp add: Returns state_after_def raised_def upt_0_Suc o_def del: upt_Suc cong: if_cong)
  next
    case (Raises w)
    with Cons.prems have "delete_snapshots delete xs
        (?st1\<lparr>provider := w, syslog := syslog ?st1 @ [Error_Failed_Delete x]\<rparr>) = (r, st')"
      by (simp add: Let_def)
    from Cons.IH[OF this] show ?thesis
      by (simp add: Raises state_after_def raised_def upt_0_Suc o_def del: upt_Suc cong: if_cong)
  qed
qed

section \<open>Evaluating the examples\<close>

lemmas eval_parse = strptime_def format_regex_match_def re_Y_def re_m_def re_d_def re_H_def
  re_M_def re_S_def re_f_def re_opt_def re_seq_def re_alt_def re_one_def re_digit_def
  re_nonzero_def py_int_def digit_val_def days_in_month_def mdays_def isleap_def
  replicate_numeral

lemma digit_char_simps:
  "digit_char 0 = CHR ''0''" "digit_char (Suc 0) = CHR ''1''" "digit_char 2 = CHR ''2''"
  "digit_char 3 = CHR ''3''" "digit_char 4 = CHR ''4''" "digit_char 5 = CHR ''5''"
  "digit_char 6 = CHR ''6''" "digit_char 7 = CHR ''7''" "digit_char 8 = CHR ''8''"
  "digit_char 9 = CHR ''9''"
  by (simp_all add: digit_char_def char_of_eq_iff)

lemmas eval_date = date_sub_days_numeral yesterday_def days_in_month_def mdays_def isleap_def
  isoformat_def pad4_def pad2_def digit_char_simps valid_date_def date_le_def
  date_less_def

lemmas eval_run = expired_snapshots_of_def manage_snapshot_inventory_def managed_snapshot_def
  flaky_delete_def fresh_run_def kept_snapshots_def Let_def

lemma parse_2024_02_29:
  "strptime ''2024-02-29T03:00:01.000Z'' =
     Inr \<lparr>date_part = \<lparr>year = 2024, month = 2, day = 29\<rparr>,
          hour = 3, minute = 0, second = 1, microsecond = 0\<rparr>"
  by (simp add: eval_parse)

lemma cutoff_2024_03_15:
  "date_sub_days \<lparr>year = 2024, month = 3, day = 15\<rparr> 7 = Inr \<lparr>year = 2024, month = 3, day = 8\<rparr>"
  by (simp add: eval_date)

lemma iso_2024_03_08: "isoformat \<lparr>year = 2024, month = 3, day = 8\<rparr> = ''2024-03-08''"
  by (simp add: eval_date)

section \<open>What the pass expires\<close>

lemma is_expired_parsed:
  "strptime (start_time s) = Inr dt \<Longrightarrow>
   is_expired wd s \<longleftrightarrow> start_time s \<le> isoformat wd
       \<and> day (date_part dt) \<noteq> mdays ! month (date_part dt)"
  by (simp add: is_expired_def)

lemma expired_iff:
  assumes "expired_snapshots_of today snaps = Inr expired" "date_sub_days today 7 = Inr wd"
  shows "s \<in> set expired \<longleftrightarrow> s \<in> set snaps \<and> is_expired wd s"
  using expired_snapshots_of_Inr[OF assms(1)] assms(2) by auto

text \<open>
  Outside the February of a leap year the table \<^verbatim>\<open>calendar.mdays\<close> gives the length of
  the month, and a snapshot of the last day of its month is never expired.
\<close>

lemma mdays_is_month_length:
  "\<not> (m = 2 \<and> isleap y) \<Longrightarrow> mdays ! m = days_in_month y m"
  by (auto simp: days_in_month_def)

lemma month_end_kept_outside_leap_february:
  assumes "expired_snapshots_of today snaps = Inr expired"
    and "strptime (start_time s) = Inr dt"
    and "day (date_part dt) = days_in_month (year (date_part dt)) (month (date_part dt))"
    and "\<not> (month (date_part dt) = 2 \<and> isleap (year (date_part dt)))"
  shows "s \<notin> set expired"
proof -
  from expired_snapshots_of_Inr[OF assms(1)] obtain wd where
    ex: "expired = filter (is_expired wd) snaps" by blast
  from assms(3) mdays_is_month_length[OF assms(4)]
  have "day (date_part dt) = mdays ! month (date_part dt)" by simp
  then have "\<not> is_expired wd s" by (simp add: is_expired_parsed[OF assms(2)])
  then show ?thesis by (simp add: ex)
qed

lemma classification_outside_leap_february:
  assumes "expired_snapshots_of today snaps = Inr expired"
    and "date_sub_days today 7 = Inr cutoff"
    and "s \<in> set snaps"
    and "strptime (start_time s) = Inr dt"
    and "\<not> (month (date_part dt) = 2 \<and> isleap (year (date_part dt)))"
  shows "s \<in> set expired \<longleftrightarrow>
           start_time s \<le> isoformat cutoff
           \<and> day (date_part dt) \<noteq> days_in_month (year (date_part dt)) (month (date_part dt))"
  using expired_iff[OF assms(1,2)] assms(3) is_expired_parsed[OF assms(4)]
    mdays_is_month_length[OF assms(5)]
  by simp

text \<open>
  The filter keeps the order of the list, and a description that starts with the tag
  itself is always selected.
\<close>

lemma get_snapshot_list_filter:
  "fst (get_snapshot_list all_snapshots log)
     = filter (\<lambda>i. re_match managed_description (description i)) all_snapshots"
  by (simp add: get_snapshot_list_def Let_def)

lemma re_match_literal: "CHR 0x0A \<notin> set p \<Longrightarrow> re_match p (p @ r)"
  by (induction p) auto

lemma managed_prefix_selected:
  "re_match managed_description (managed_description @ r)"
  by (rule re_match_literal) (simp add: managed_description_def)

section \<open>The claims\<close>

subsection \<open>C1: the classification rule\<close>

text \<open>
  Claim C1: with the cutoff seven days before today, a snapshot is expired if and only
  if its \<^verbatim>\<open>start_time\<close> is at most the ISO string of the cutoff and its date is not the
  last calendar day of its month. The source tests the day against \<^verbatim>\<open>calendar.mdays\<close>,
  the table of a common year, so on the 29th of February of a leap year the two differ:
  on 2024-03-15 the cutoff is 2024-03-08, the snapshot of 2024-02-29 is at most the
  cutoff string, the 29th is the last day of February 2024, and the pass expires it.
\<close>

theorem classification_leap_day:
  "date_sub_days \<lparr>year = 2024, month = 3, day = 15\<rparr> 7 = Inr \<lparr>year = 2024, month = 3, day = 8\<rparr>
   \<and> ''2024-02-29T03:00:01.000Z'' \<le> isoformat \<lparr>year = 2024, month = 3, day = 8\<rparr>
   \<and> days_in_month 2024 2 = 29
   \<and> expired_snapshots_of \<lparr>year = 2024, month = 3, day = 15\<rparr>
        [managed_snapshot ''snap-1'' ''2024-02-29T03:00:01.000Z'']
       = Inr [managed_snapshot ''snap-1'' ''2024-02-29T03:00:01.000Z'']"
  by (simp add: expired_snapshots_of_def cutoff_2024_03_15 iso_2024_03_08 managed_snapshot_def
        parse_2024_02_29 days_in_month_def isleap_def mdays_def)

subsection \<open>C2: leap years\<close>

text \<open>
  Claim C2: the 29th of February of a leap year counts as month end and is kept, the
  28th of February of a leap year does not and is expired once it is old. In the source
  it is the other way round: February 2012 has 29 days, and on 2013-06-01 the pass expires
  the snapshot of 2012-02-29 and keeps the one of 2012-02-28.
\<close>

theorem leap_february_month_end:
  "days_in_month 2012 2 = 29
   \<and> expired_snapshots_of \<lparr>year = 2013, month = 6, day = 1\<rparr>
        [managed_snapshot ''snap-1'' ''2012-02-29T03:00:01.000Z'',
         managed_snapshot ''snap-2'' ''2012-02-28T03:00:01.000Z'']
       = Inr [managed_snapshot ''snap-1'' ''2012-02-29T03:00:01.000Z'']"
  by (simp add: eval_run eval_parse eval_date)

subsection \<open>C3: month-end immunity\<close>

text \<open>
  Claim C3: a snapshot taken on the last calendar day of its month is kept whatever its
  age. The source expires the snapshot of 2000-02-29, the last day of February 2000, on
  2026-11-04.
\<close>

theorem month_end_leap_day_expired:
  "days_in_month 2000 2 = 29
   \<and> strptime ''2000-02-29T03:00:01.000Z''
       = Inr \<lparr>date_part = \<lparr>year = 2000, month = 2, day = 29\<rparr>,
              hour = 3, minute = 0, second = 1, microsecond = 0\<rparr>
   \<and> expired_snapshots_of \<lparr>year = 2026, month = 11, day = 4\<rparr>
        [managed_snapshot ''snap-1'' ''2000-02-29T03:00:01.000Z'']
       = Inr [managed_snapshot ''snap-1'' ''2000-02-29T03:00:01.000Z'']"
  by (simp add: eval_run eval_parse eval_date)

subsection \<open>C4: the seven-day floor\<close>

text \<open>
  Claim C4: no snapshot whose date lies within \<open>[today - 6, today]\<close> is ever placed in
  the expire list. The timestamps of the provider hold no blank, which is the one
  premise on the text of \<^verbatim>\<open>start_time\<close>; the fields may be padded with zeros or not.
\<close>

theorem seven_day_floor:
  assumes today: "valid_date today"
    and lo: "date_sub_days today 6 = Inr lo"
    and run: "expired_snapshots_of today snaps = Inr expired"
    and s: "s \<in> set snaps"
    and parse: "strptime (start_time s) = Inr dt"
    and window: "date_le lo (date_part dt)" "date_le (date_part dt) today"
    and noblank: "CHR '' '' \<notin> set (start_time s)"
  shows "s \<notin> set expired"
proof -
  from expired_snapshots_of_Inr[OF run] obtain wd where
    wd: "date_sub_days today 7 = Inr wd" and ex: "expired = filter (is_expired wd) snaps"
    by blast
  from week_before[OF today lo wd] have v: "valid_date wd" and l: "date_less wd lo" by simp_all
  from date_less_le_trans[OF l window(1)] have "date_le wd (date_part dt)" .
  from isoformat_less_timestamp[OF parse noblank v this]
  have "isoformat wd < start_time s" .
  then have "\<not> is_expired wd s" by (simp add: is_expired_parsed[OF parse] not_le)
  then show ?thesis by (simp add: ex)
qed

text \<open>On 2024-01-10 the snapshot of 2024-01-05 stays, the one of 2023-12-20 goes.\<close>

theorem seven_day_floor_witness:
  "valid_date \<lparr>year = 2024, month = 1, day = 10\<rparr>
   \<and> date_sub_days \<lparr>year = 2024, month = 1, day = 10\<rparr> 6 = Inr \<lparr>year = 2024, month = 1, day = 4\<rparr>
   \<and> expired_snapshots_of \<lparr>year = 2024, month = 1, day = 10\<rparr>
        [managed_snapshot ''snap-1'' ''2023-12-20T03:00:01.000Z'',
         managed_snapshot ''snap-2'' ''2024-01-05T03:00:01.000Z'']
       = Inr [managed_snapshot ''snap-1'' ''2023-12-20T03:00:01.000Z'']
   \<and> strptime (start_time (managed_snapshot ''snap-2'' ''2024-01-05T03:00:01.000Z''))
       = Inr \<lparr>date_part = \<lparr>year = 2024, month = 1, day = 5\<rparr>,
              hour = 3, minute = 0, second = 1, microsecond = 0\<rparr>
   \<and> managed_snapshot ''snap-2'' ''2024-01-05T03:00:01.000Z''
       \<notin> set [managed_snapshot ''snap-1'' ''2023-12-20T03:00:01.000Z'']"
proof -
  let ?T = "\<lparr>year = 2024, month = 1, day = 10\<rparr>" and ?lo = "\<lparr>year = 2024, month = 1, day = 4\<rparr>"
  let ?a = "managed_snapshot ''snap-1'' ''2023-12-20T03:00:01.000Z''"
  let ?b = "managed_snapshot ''snap-2'' ''2024-01-05T03:00:01.000Z''"
  let ?dt = "\<lparr>date_part = \<lparr>year = 2024, month = 1, day = 5\<rparr>,
              hour = 3, minute = 0, second = 1, microsecond = 0\<rparr>"
  have h1: "valid_date ?T" by (simp add: eval_date)
  have h2: "date_sub_days ?T 6 = Inr ?lo" by (simp add: eval_date)
  have h3: "expired_snapshots_of ?T [?a, ?b] = Inr [?a]"
    by (simp add: eval_run eval_parse eval_date)
  have h4: "?b \<in> set [?a, ?b]" by simp
  have h5: "strptime (start_time ?b) = Inr ?dt" by (simp add: managed_snapshot_def eval_parse)
  have h6: "date_le ?lo (date_part ?dt)" by (simp add: eval_date)
  have h7: "date_le (date_part ?dt) ?T" by (simp add: eval_date)
  have h8: "CHR '' '' \<notin> set (start_time ?b)" by (simp add: managed_snapshot_def)
  from seven_day_floor[OF h1 h2 h3 h4 h5 h6 h7 h8] h1 h2 h3 h5 show ?thesis by simp
qed

text \<open>
  The premise leaves out one spelling only. \<^verbatim>\<open>strptime\<close> also reads a day written with a
  blank in front, a blank is below every digit, and the source compares the text: such
  a timestamp of yesterday is below the ISO string of the cutoff.
\<close>

lemma blank_padded_day_expired:
  "date_sub_days \<lparr>year = 2024, month = 1, day = 10\<rparr> 6 = Inr \<lparr>year = 2024, month = 1, day = 4\<rparr>
   \<and> strptime ''2024-01- 9T10:00:00.000Z''
       = Inr \<lparr>date_part = \<lparr>year = 2024, month = 1, day = 9\<rparr>,
              hour = 10, minute = 0, second = 0, microsecond = 0\<rparr>
   \<and> date_le \<lparr>year = 2024, month = 1, day = 4\<rparr> \<lparr>year = 2024, month = 1, day = 9\<rparr>
   \<and> date_le \<lparr>year = 2024, month = 1, day = 9\<rparr> \<lparr>year = 2024, month = 1, day = 10\<rparr>
   \<and> expired_snapshots_of \<lparr>year = 2024, month = 1, day = 10\<rparr>
        [managed_snapshot ''snap-9'' ''2024-01- 9T10:00:00.000Z'']
       = Inr [managed_snapshot ''snap-9'' ''2024-01- 9T10:00:00.000Z'']"
  by (simp add: eval_run eval_parse eval_date)

subsection \<open>C5: the inventory filter\<close>

text \<open>
  Claim C5: the filter returns, in the order of the input, exactly the snapshots whose
  description starts with the tag \<^verbatim>\<open>Created by aws_snapshot_manager.py\<close>, character for
  character. The source hands the tag to \<^verbatim>\<open>re.match\<close> as a pattern, in which the dot
  stands for any character: a description that has \<^verbatim>\<open>X\<close> in the place of the dot does
  not start with the tag and is selected all the same.
\<close>

theorem inventory_filter_wildcard:
  "fst (get_snapshot_list
         [managed_snapshot ''snap-1'' ''2024-03-01T03:00:01.000Z'',
          \<lparr>snap_id = ''snap-2'', description = ''Created by aws_snapshot_managerXpy'',
           start_time = ''2024-03-02T03:00:01.000Z''\<rparr>,
          \<lparr>snap_id = ''snap-3'', description = ''Other tool snapshot'',
           start_time = ''2024-03-03T03:00:01.000Z''\<rparr>] [])
     = [managed_snapshot ''snap-1'' ''2024-03-01T03:00:01.000Z'',
        \<lparr>snap_id = ''snap-2'', description = ''Created by aws_snapshot_managerXpy'',
         start_time = ''2024-03-02T03:00:01.000Z''\<rparr>]
   \<and> take (length managed_description) ''Created by aws_snapshot_managerXpy'' \<noteq> managed_description"
  by (simp add: get_snapshot_list_def managed_description_def managed_snapshot_def Let_def)

subsection \<open>C6: the partition\<close>

text \<open>
  Claim C6: whenever the pass completes, the snapshots it keeps and the snapshots it
  expires are disjoint, together they are the inventory, and every snapshot of the
  inventory is counted once.
\<close>

theorem partition_completeness:
  assumes "expired_snapshots_of today snaps = Inr expired"
  shows "set (kept_snapshots snaps expired) \<union> set expired = set snaps
       \<and> set (kept_snapshots snaps expired) \<inter> set expired = {}
       \<and> length (kept_snapshots snaps expired) + length expired = length snaps"
proof -
  from expired_snapshots_of_Inr[OF assms] obtain wd where
    ex: "expired = filter (is_expired wd) snaps" by blast
  have k: "kept_snapshots snaps (filter (is_expired wd) snaps)
             = filter (\<lambda>s. \<not> is_expired wd s) snaps"
    unfolding kept_snapshots_def by (rule filter_cong) auto
  have "length (filter (is_expired wd) snaps) + length (filter (\<lambda>s. \<not> is_expired wd s) snaps)
          = length snaps"
    by (rule sum_length_filter_compl)
  then show ?thesis unfolding ex k by auto
qed

text \<open>
  On 2024-03-15, of the snapshots of 2024-02-20, 2024-01-31 and 2024-03-14 the first is
  expired, the second is kept as a month end and the third as recent.
\<close>

theorem partition_completeness_witness:
  "expired_snapshots_of \<lparr>year = 2024, month = 3, day = 15\<rparr>
        [managed_snapshot ''snap-1'' ''2024-02-20T03:00:01.000Z'',
         managed_snapshot ''snap-2'' ''2024-01-31T03:00:01.000Z'',
         managed_snapshot ''snap-3'' ''2024-03-14T03:00:01.000Z'']
       = Inr [managed_snapshot ''snap-1'' ''2024-02-20T03:00:01.000Z'']
   \<and> kept_snapshots
        [managed_snapshot ''snap-1'' ''2024-02-20T03:00:01.000Z'',
         managed_snapshot ''snap-2'' ''2024-01-31T03:00:01.000Z'',
         managed_snapshot ''snap-3'' ''2024-03-14T03:00:01.000Z'']
        [managed_snapshot ''snap-1'' ''2024-02-20T03:00:01.000Z'']
       = [managed_snapshot ''snap-2'' ''2024-01-31T03:00:01.000Z'',
          managed_snapshot ''snap-3'' ''2024-03-14T03:00:01.000Z'']
   \<and> set (kept_snapshots
        [managed_snapshot ''snap-1'' ''2024-02-20T03:00:01.000Z'',
         managed_snapshot ''snap-2'' ''2024-01-31T03:00:01.000Z'',
         managed_snapshot ''snap-3'' ''2024-03-14T03:00:01.000Z'']
        [managed_snapshot ''snap-1'' ''2024-02-20T03:00:01.000Z''])
       \<inter> set [managed_snapshot ''snap-1'' ''2024-02-20T03:00:01.000Z''] = {}"
proof -
  let ?T = "\<lparr>year = 2024, month = 3, day = 15\<rparr>"
  let ?a = "managed_snapshot ''snap-1'' ''2024-02-20T03:00:01.000Z''"
  let ?b = "managed_snapshot ''snap-2'' ''2024-01-31T03:00:01.000Z''"
  let ?c = "managed_snapshot ''snap-3'' ''2024-03-14T03:00:01.000Z''"
  have h: "expired_snapshots_of ?T [?a, ?b, ?c] = Inr [?a]"
    by (simp add: eval_run eval_parse eval_date)
  have k: "kept_snapshots [?a, ?b, ?c] [?a] = [?b, ?c]"
    by (simp add: kept_snapshots_def managed_snapshot_def)
  from partition_completeness[OF h] h k show ?thesis by simp
qed

subsection \<open>C7: timestamps that do not parse\<close>

text \<open>
  Claim C7: when the cutoff exists (today is not in the first week of year 1), an
  inventory with a snapshot whose \<^verbatim>\<open>start_time\<close> does not parse makes the pass fail with
  the parse error, Python's \<^verbatim>\<open>ValueError\<close>, and an inventory whose timestamps all parse
  makes it return.
\<close>

theorem malformed_timestamp_raises:
  assumes "date_sub_days today 7 = Inr week_delta"
  shows "((\<exists>s\<in>set snaps. strptime (start_time s) = Inl ValueError)
            \<longrightarrow> manage_snapshot_inventory today delete snaps st = Inl ValueError)
       \<and> ((\<forall>s\<in>set snaps. \<exists>dt. strptime (start_time s) = Inr dt)
            \<longrightarrow> (\<exists>r st'. manage_snapshot_inventory today delete snaps st = Inr (r, st')))"
proof (intro conjI impI)
  assume "\<exists>s\<in>set snaps. strptime (start_time s) = Inl ValueError"
  then obtain s where "s \<in> set snaps" and bad: "strptime (start_time s) = Inl ValueError"
    by blast
  moreover from bad have "\<forall>dt. strptime (start_time s) \<noteq> Inr dt" by simp
  ultimately have "\<exists>s\<in>set snaps. \<forall>dt. strptime (start_time s) \<noteq> Inr dt" by blast
  then have "expire_loop week_delta snaps [] = Inl ValueError" by (rule expire_loop_unparsed)
  then show "manage_snapshot_inventory today delete snaps st = Inl ValueError"
    by (simp add: manage_snapshot_inventory_def expired_snapshots_of_def assms)
next
  assume "\<forall>s\<in>set snaps. \<exists>dt. strptime (start_time s) = Inr dt"
  then have "expire_loop week_delta snaps [] = Inr ([] @ filter (is_expired week_delta) snaps)"
    by (rule expire_loop_parsed)
  then have "expired_snapshots_of today snaps = Inr (filter (is_expired week_delta) snaps)"
    by (simp add: expired_snapshots_of_def assms)
  then show "\<exists>r st'. manage_snapshot_inventory today delete snaps st = Inr (r, st')"
    by (cases "delete_snapshots delete (filter (is_expired week_delta) snaps) st")
       (simp add: manage_snapshot_inventory_def)
qed

text \<open>A timestamp with a blank for the \<^verbatim>\<open>T\<close> and no fraction does not parse.\<close>

theorem malformed_timestamp_raises_witness:
  "date_sub_days \<lparr>year = 2024, month = 3, day = 15\<rparr> 7 = Inr \<lparr>year = 2024, month = 3, day = 8\<rparr>
   \<and> strptime ''2024-03-13 03:00:01'' = Inl ValueError
   \<and> manage_snapshot_inventory \<lparr>year = 2024, month = 3, day = 15\<rparr> (flaky_delete ''snap-0'')
        [managed_snapshot ''snap-1'' ''2024-03-14T03:00:01.000Z'',
         managed_snapshot ''snap-2'' ''2024-03-13 03:00:01''] fresh_run
       = Inl ValueError
   \<and> (\<exists>r st'. manage_snapshot_inventory \<lparr>year = 2024, month = 3, day = 15\<rparr>
                  (flaky_delete ''snap-0'')
                  [managed_snapshot ''snap-1'' ''2024-03-14T03:00:01.000Z''] fresh_run
                = Inr (r, st'))"
proof -
  let ?T = "\<lparr>year = 2024, month = 3, day = 15\<rparr>" and ?wd = "\<lparr>year = 2024, month = 3, day = 8\<rparr>"
  let ?a = "managed_snapshot ''snap-1'' ''2024-03-14T03:00:01.000Z''"
  let ?b = "managed_snapshot ''snap-2'' ''2024-03-13 03:00:01''"
  have h: "date_sub_days ?T 7 = Inr ?wd" by (simp add: eval_date)
  have bad: "strptime ''2024-03-13 03:00:01'' = Inl ValueError" by (simp add: eval_parse)
  have good: "strptime ''2024-03-14T03:00:01.000Z''
       = Inr \<lparr>date_part = \<lparr>year = 2024, month = 3, day = 14\<rparr>,
              hour = 3, minute = 0, second = 1, microsecond = 0\<rparr>" by (simp add: eval_parse)
  have p1: "\<exists>s\<in>set [?a, ?b]. strptime (start_time s) = Inl ValueError"
    by (simp add: managed_snapshot_def bad)
  have p2: "\<forall>s\<in>set [?a]. \<exists>dt. strptime (start_time s) = Inr dt"
    by (simp add: managed_snapshot_def good)
  from malformed_timestamp_raises[OF h, of "[?a, ?b]" "flaky_delete ''snap-0''" fresh_run] p1
  have r1: "manage_snapshot_inventory ?T (flaky_delete ''snap-0'') [?a, ?b] fresh_run
              = Inl ValueError" by blast
  from malformed_timestamp_raises[OF h, of "[?a]" "flaky_delete ''snap-0''" fresh_run] p2
  have r2: "\<exists>r st'. manage_snapshot_inventory ?T (flaky_delete ''snap-0'') [?a] fresh_run
              = Inr (r, st')" by blast
  from h bad r1 r2 show ?thesis by blast
qed

subsection \<open>C8: a deletion that fails\<close>

text \<open>
  Claim C8 says that after a failed deletion the remaining ones are still attempted and
  that the run ends with a non-zero advisory status. In the source nothing records that
  a deletion failed but the syslog. Here the second of three deletions fails, all three
  are attempted, and the run hands back what it hands back when no deletion fails.
\<close>

theorem deletion_status_counterexample:
  "manage_snapshot_inventory \<lparr>year = 2024, month = 3, day = 15\<rparr> (flaky_delete ''snap-2'')
     [managed_snapshot ''snap-1'' ''2024-02-10T03:00:01.000Z'',
      managed_snapshot ''snap-2'' ''2024-02-11T03:00:01.000Z'',
      managed_snapshot ''snap-3'' ''2024-02-12T03:00:01.000Z''] fresh_run
   = Inr (PyNone,
       \<lparr>provider = [managed_snapshot ''snap-1'' ''2024-02-10T03:00:01.000Z'',
                    managed_snapshot ''snap-3'' ''2024-02-12T03:00:01.000Z''],
        syslog = [Info_Deleting (managed_snapshot ''snap-1'' ''2024-02-10T03:00:01.000Z''),
                  Info_Deleting (managed_snapshot ''snap-2'' ''2024-02-11T03:00:01.000Z''),
                  Error_Failed_Delete (managed_snapshot ''snap-2'' ''2024-02-11T03:00:01.000Z''),
                  Info_Deleting (managed_snapshot ''snap-3'' ''2024-02-12T03:00:01.000Z'')],
        delete_calls = [managed_snapshot ''snap-1'' ''2024-02-10T03:00:01.000Z'',
                        managed_snapshot ''snap-2'' ''2024-02-11T03:00:01.000Z'',
                        managed_snapshot ''snap-3'' ''2024-02-12T03:00:01.000Z'']\<rparr>)
   \<and> manage_snapshot_inventory \<lparr>year = 2024, month = 3, day = 15\<rparr> (flaky_delete ''snap-0'')
     [managed_snapshot ''snap-1'' ''2024-02-10T03:00:01.000Z'',
      managed_snapshot ''snap-2'' ''2024-02-11T03:00:01.000Z'',
      managed_snapshot ''snap-3'' ''2024-02-12T03:00:01.000Z''] fresh_run
   = Inr (PyNone,
       \<lparr>provider = [managed_snapshot ''snap-1'' ''2024-02-10T03:00:01.000Z'',
                    managed_snapshot ''snap-2'' ''2024-02-11T03:00:01.000Z'',
                    managed_snapshot ''snap-3'' ''2024-02-12T03:00:01.000Z''],
        syslog = [Info_Deleting (managed_snapshot ''snap-1'' ''2024-02-10T03:00:01.000Z''),
                  Info_Deleting (managed_snapshot ''snap-2'' ''2024-02-11T03:00:01.000Z''),
                  Info_Deleting (managed_snapshot ''snap-3'' ''2024-02-12T03:00:01.000Z'')],
        delete_calls = [managed_snapshot ''snap-1'' ''2024-02-10T03:00:01.000Z'',
                        managed_snapshot ''snap-2'' ''2024-02-11T03:00:01.000Z'',
                        managed_snapshot ''snap-3'' ''2024-02-12T03:00:01.000Z'']\<rparr>)"
  by (simp add: eval_run eval_parse eval_date)

text \<open>
  Claim C8, amended: whatever deletions fail, the run does not raise; \<^verbatim>\<open>delete\<close> is called
  for every member of the expire list, in order, each call on the state the one before
  left; the provider ends in the state the last call left; and the syslog gains, for
  each member in order, the line that announces the deletion, followed by the line of
  the failure when that call raised.
\<close>

theorem deletion_continues_after_failure:
  assumes "expired_snapshots_of today snaps = Inr expired" "expired \<noteq> []"
  shows "\<exists>r st'. manage_snapshot_inventory today delete snaps st = Inr (r, st')
           \<and> delete_calls st' = delete_calls st @ expired
           \<and> provider st' = foldl (\<lambda>w s. state_after (delete s w)) (provider st) expired
           \<and> syslog st' = syslog st @ concat (map (\<lambda>i.
                 Info_Deleting (expired ! i)
                 # (if raised (delete (expired ! i)
                        (foldl (\<lambda>w s. state_after (delete s w)) (provider st) (take i expired)))
                    then [Error_Failed_Delete (expired ! i)] else []))
               [0..<length expired])"
proof -
  obtain r st' where d: "delete_snapshots delete expired st = (r, st')"
    by (cases "delete_snapshots delete expired st")
  from delete_snapshots_result[OF d] have c: "delete_calls st' = delete_calls st @ expired"
    by simp
  from delete_snapshots_effect[OF d] c d assms show ?thesis
    by (simp add: manage_snapshot_inventory_def)
qed

text \<open>
  The first of two deletions fails: the second is attempted, only the second snapshot
  is deleted, and the failure of the first is logged.
\<close>

theorem deletion_continues_after_failure_witness:
  "expired_snapshots_of \<lparr>year = 2024, month = 3, day = 15\<rparr>
     [managed_snapshot ''snap-1'' ''2024-02-10T03:00:01.000Z'',
      managed_snapshot ''snap-2'' ''2024-02-11T03:00:01.000Z'']
     = Inr [managed_snapshot ''snap-1'' ''2024-02-10T03:00:01.000Z'',
            managed_snapshot ''snap-2'' ''2024-02-11T03:00:01.000Z'']
   \<and> (\<exists>r st'. manage_snapshot_inventory \<lparr>year = 2024, month = 3, day = 15\<rparr>
               (flaky_delete ''snap-1'')
               [managed_snapshot ''snap-1'' ''2024-02-10T03:00:01.000Z'',
                managed_snapshot ''snap-2'' ''2024-02-11T03:00:01.000Z''] fresh_run
             = Inr (r, st')
           \<and> delete_calls st'
               = [managed_snapshot ''snap-1'' ''2024-02-10T03:00:01.000Z'',
                  managed_snapshot ''snap-2'' ''2024-02-11T03:00:01.000Z'']
           \<and> provider st' = [managed_snapshot ''snap-2'' ''2024-02-11T03:00:01.000Z'']
           \<and> syslog st'
               = [Info_Deleting (managed_snapshot ''snap-1'' ''2024-02-10T03:00:01.000Z''),
                  Error_Failed_Delete (managed_snapshot ''snap-1'' ''2024-02-10T03:00:01.000Z''),
                  Info_Deleting (managed_snapshot ''snap-2'' ''2024-02-11T03:00:01.000Z'')])"
proof -
  let ?T = "\<lparr>year = 2024, month = 3, day = 15\<rparr>"
  let ?a = "managed_snapshot ''snap-1'' ''2024-02-10T03:00:01.000Z''"
  let ?b = "managed_snapshot ''snap-2'' ''2024-02-11T03:00:01.000Z''"
  have h1: "expired_snapshots_of ?T [?a, ?b] = Inr [?a, ?b]"
    by (simp add: eval_run eval_parse eval_date)
  have h2: "[?a, ?b] \<noteq> []" by simp
  have ida: "snap_id ?a = ''snap-1''" and idb: "snap_id ?b = ''snap-2''"
    by (simp_all add: managed_snapshot_def)
  have two: "[0..<length [?a, ?b]] = [0, 1]" by (simp add: upt_rec)
  from deletion_continues_after_failure[OF h1 h2, where delete = "flaky_delete ''snap-1''"
      and st = fresh_run]
  have "\<exists>r st'. manage_snapshot_inventory ?T (flaky_delete ''snap-1'') [?a, ?b] fresh_run
             = Inr (r, st')
           \<and> delete_calls st' = [?a, ?b] \<and> provider st' = [?b]
           \<and> syslog st' = [Info_Deleting ?a, Error_Failed_Delete ?a, Info_Deleting ?b]"
    unfolding two
    by (simp add: fresh_run_def flaky_delete_def ida idb state_after_def raised_def)
  with h1 show ?thesis by simp
qed

subsection \<open>C9: the day of the cutoff\<close>

text \<open>
  Claim C9: a snapshot whose timestamp is its date in ISO form, then \<^verbatim>\<open>T\<close>, then a time,
  and whose date is the day of the cutoff, seven days before today, is kept, because
  the timestamp is greater than the ISO string of the cutoff. The window is eight
  calendar days and no more: such a snapshot is expired exactly when its date is before
  the cutoff and its day is not the one \<^verbatim>\<open>calendar.mdays\<close> gives for its month, and the
  eighth day before today is before the cutoff.
\<close>

theorem cutoff_day_kept:
  assumes today: "valid_date today"
    and cutoff: "date_sub_days today 7 = Inr cutoff"
    and run: "expired_snapshots_of today snaps = Inr expired"
    and s: "s \<in> set snaps"
    and parse: "strptime (start_time s) = Inr dt"
    and layout: "start_time s = isoformat (date_part dt) @ CHR ''T'' # tm"
  shows "(date_part dt = cutoff \<longrightarrow> isoformat cutoff < start_time s \<and> s \<notin> set expired)
       \<and> (s \<in> set expired \<longleftrightarrow>
            date_less (date_part dt) cutoff
            \<and> day (date_part dt) \<noteq> mdays ! month (date_part dt))
       \<and> (date_sub_days today 8 = Inr (date_part dt) \<longrightarrow> date_less (date_part dt) cutoff)"
proof -
  from date_sub_days_valid[OF today cutoff] have vc: "valid_date cutoff" by simp
  from strptime_valid_date[OF parse] have vd: "valid_date (date_part dt)" .
  from layout_order[OF vc vd layout]
  have ord: "start_time s \<le> isoformat cutoff \<longleftrightarrow> date_less (date_part dt) cutoff" .
  have mem: "s \<in> set expired \<longleftrightarrow>
      date_less (date_part dt) cutoff \<and> day (date_part dt) \<noteq> mdays ! month (date_part dt)"
    using expired_iff[OF run cutoff] s is_expired_parsed[OF parse] ord by simp
  have self: "\<not> date_less cutoff cutoff" by (simp add: date_less_def)
  have a: "date_part dt = cutoff \<longrightarrow> isoformat cutoff < start_time s \<and> s \<notin> set expired"
    using ord mem self by (auto simp: not_le)
  have c: "date_sub_days today 8 = Inr (date_part dt) \<longrightarrow> date_less (date_part dt) cutoff"
    using eighth_day_before[OF today cutoff] by blast
  from a mem c show ?thesis by blast
qed

text \<open>
  On 2023-07-12 the snapshot of midnight 2023-07-05 is kept and the snapshot of the last
  second of 2023-07-04 is expired.
\<close>

theorem cutoff_day_kept_witness:
  "valid_date \<lparr>year = 2023, month = 7, day = 12\<rparr>
   \<and> date_sub_days \<lparr>year = 2023, month = 7, day = 12\<rparr> 7 = Inr \<lparr>year = 2023, month = 7, day = 5\<rparr>
   \<and> date_sub_days \<lparr>year = 2023, month = 7, day = 12\<rparr> 8 = Inr \<lparr>year = 2023, month = 7, day = 4\<rparr>
   \<and> expired_snapshots_of \<lparr>year = 2023, month = 7, day = 12\<rparr>
        [managed_snapshot ''snap-4'' ''2023-07-04T23:59:59.999Z'',
         managed_snapshot ''snap-5'' ''2023-07-05T00:00:00.000Z'']
       = Inr [managed_snapshot ''snap-4'' ''2023-07-04T23:59:59.999Z'']
   \<and> isoformat \<lparr>year = 2023, month = 7, day = 5\<rparr>
       < start_time (managed_snapshot ''snap-5'' ''2023-07-05T00:00:00.000Z'')
   \<and> managed_snapshot ''snap-5'' ''2023-07-05T00:00:00.000Z''
       \<notin> set [managed_snapshot ''snap-4'' ''2023-07-04T23:59:59.999Z'']
   \<and> managed_snapshot ''snap-4'' ''2023-07-04T23:59:59.999Z''
       \<in> set [managed_snapshot ''snap-4'' ''2023-07-04T23:59:59.999Z'']
   \<and> date_less \<lparr>year = 2023, month = 7, day = 4\<rparr> \<lparr>year = 2023, month = 7, day = 5\<rparr>"
proof -
  let ?T = "\<lparr>year = 2023, month = 7, day = 12\<rparr>" and ?c = "\<lparr>year = 2023, month = 7, day = 5\<rparr>"
  let ?e = "\<lparr>year = 2023, month = 7, day = 4\<rparr>"
  let ?a = "managed_snapshot ''snap-5'' ''2023-07-05T00:00:00.000Z''"
  let ?b = "managed_snapshot ''snap-4'' ''2023-07-04T23:59:59.999Z''"
  let ?dta = "\<lparr>date_part = ?c, hour = 0, minute = 0, second = 0, microsecond = 0\<rparr>"
  let ?dtb = "\<lparr>date_part = ?e, hour = 23, minute = 59, second = 59, microsecond = 999000\<rparr>"
  have h1: "valid_date ?T" by (simp add: eval_date)
  have h2: "date_sub_days ?T 7 = Inr ?c" by (simp add: eval_date)
  have h8: "date_sub_days ?T 8 = Inr ?e" by (simp add: eval_date)
  have h3: "expired_snapshots_of ?T [?b, ?a] = Inr [?b]"
    by (simp add: eval_run eval_parse eval_date)
  have ma: "?a \<in> set [?b, ?a]" and mb: "?b \<in> set [?b, ?a]" by simp_all
  have pa: "strptime (start_time ?a) = Inr ?dta" by (simp add: managed_snapshot_def eval_parse)
  have pb: "strptime (start_time ?b) = Inr ?dtb" by (simp add: managed_snapshot_def eval_parse)
  have la: "start_time ?a = isoformat (date_part ?dta) @ CHR ''T'' # ''00:00:00.000Z''"
    by (simp add: managed_snapshot_def eval_date)
  have lb: "start_time ?b = isoformat (date_part ?dtb) @ CHR ''T'' # ''23:59:59.999Z''"
    by (simp add: managed_snapshot_def eval_date)
  have nb: "day (date_part ?dtb) \<noteq> mdays ! month (date_part ?dtb)" by (simp add: mdays_def)
  from cutoff_day_kept[OF h1 h2 h3 ma pa la]
  have ka: "isoformat ?c < start_time ?a" "?a \<notin> set [?b]" by simp_all
  from cutoff_day_kept[OF h1 h2 h3 mb pb lb] h8 nb
  have kb: "date_less ?e ?c" "?b \<in> set [?b]" by simp_all
  from h1 h2 h8 h3 ka kb show ?thesis by simp
qed
subsection \<open>C10: the branch for a negative length\<close>

text \<open>
  Claim C10: the third branch of \<^verbatim>\<open>manage_snapshot_inventory\<close>, which logs a negative
  number of snapshots and returns 1, is never taken. The function raises only when the
  loop raised; otherwise it returns through the deleting branch when the expire list
  is not empty and through the branch that returns 0 when it is.
\<close>

theorem negative_branch_unreachable:
  "case manage_snapshot_inventory today delete snaps st of
     Inl e \<Rightarrow> expired_snapshots_of today snaps = Inl e
   | Inr (r, st') \<Rightarrow>
       r \<noteq> PyInt 1
       \<and> (\<exists>new. syslog st' = syslog st @ new \<and> Error_Negative_Count \<notin> set new)
       \<and> (\<exists>expired. expired_snapshots_of today snaps = Inr expired
             \<and> (if expired \<noteq> [] then (r, st') = delete_snapshots delete expired st
                 else (r, st') = (PyInt 0, st\<lparr>syslog := syslog st @ [Debug_Not_Deleting]\<rparr>)))"
proof (cases "expired_snapshots_of today snaps")
  case (Inl e)
  then show ?thesis by (simp add: manage_snapshot_inventory_def)
next
  case (Inr expired)
  show ?thesis
  proof (cases "expired = []")
    case True
    with Inr show ?thesis by (simp add: manage_snapshot_inventory_def)
  next
    case False
    obtain r st' where d: "delete_snapshots delete expired st = (r, st')"
      by (cases "delete_snapshots delete expired st")
    from delete_snapshots_result[OF d] have "r = PyNone"
      "\<exists>new. syslog st' = syslog st @ new \<and> Error_Negative_Count \<notin> set new" by auto
    with Inr False d show ?thesis by (simp add: manage_snapshot_inventory_def)
  qed
qed

text \<open>A run with one recent snapshot returns 0 and logs no error.\<close>

theorem negative_branch_unreachable_witness:
  "\<exists>r st'. manage_snapshot_inventory \<lparr>year = 2024, month = 3, day = 15\<rparr>
              (flaky_delete ''snap-0'')
              [managed_snapshot ''snap-1'' ''2024-03-14T03:00:01.000Z''] fresh_run = Inr (r, st')
           \<and> r = PyInt 0 \<and> r \<noteq> PyInt 1 \<and> Error_Negative_Count \<notin> set (syslog st')"
proof -
  let ?T = "\<lparr>year = 2024, month = 3, day = 15\<rparr>"
  let ?a = "managed_snapshot ''snap-1'' ''2024-03-14T03:00:01.000Z''"
  have run: "manage_snapshot_inventory ?T (flaky_delete ''snap-0'') [?a] fresh_run
        = Inr (PyInt 0, fresh_run\<lparr>syslog := syslog fresh_run @ [Debug_Not_Deleting]\<rparr>)"
    by (simp add: eval_run eval_parse eval_date)
  from negative_branch_unreachable[where today = ?T and delete = "flaky_delete ''snap-0''"
      and snaps = "[?a]" and st = fresh_run]
  show ?thesis unfolding run by (auto simp: fresh_run_def)
qed

end
